theory Spec2Isabelle
  imports Complex_Main
begin

section \<open>Data model (app/models.py, app/schemas.py)\<close>

text \<open>
  The four mapped tables and the link table of \<^verbatim>\<open>app/models.py\<close>. Identifiers are
  Python integers. Text columns are sequences of Unicode code points, since the name
  search compares characters and not bytes. The Float columns of a building are read
  as real numbers: the code only compares them.
\<close>

type_synonym ustring = "nat list"

record phone =
  p_id :: int
  p_number :: ustring
  p_organization_id :: int

record activity =
  a_id :: int
  a_name :: ustring
  a_parent_id :: "int option"
  a_level :: int

record building =
  b_id :: int
  b_address :: ustring
  b_latitude :: real
  b_longitude :: real

record organization =
  o_id :: int
  o_name :: ustring
  o_building_id :: int

text \<open>
  The persisted data state: the rows of every table in the order the store lists
  them, and the rows \<open>(organization_id, activity_id)\<close> of the link table
  \<^verbatim>\<open>organization_activity\<close>.
\<close>

record db =
  buildings :: "building list"
  activities :: "activity list"
  organizations :: "organization list"
  phones :: "phone list"
  organization_activity :: "(int \<times> int) list"

text \<open>The request bodies of \<^verbatim>\<open>app/schemas.py\<close>.\<close>

record activity_create =
  ac_name :: ustring
  ac_parent_id :: "int option"

record building_create =
  bc_address :: ustring
  bc_latitude :: real
  bc_longitude :: real

record organization_create =
  oc_name :: ustring
  oc_building_id :: int
  oc_phone_numbers :: "ustring list"
  oc_activity_ids :: "int list"

text \<open>
  The exceptions the service functions can end with: the \<^verbatim>\<open>ValueError\<close> that
  \<^verbatim>\<open>create_activity\<close> raises, with its message, and the \<^verbatim>\<open>RecursionError\<close> of the
  interpreter when \<^verbatim>\<open>get_all_children\<close> nests deeper than the recursion limit.
  geopy raises \<^verbatim>\<open>ValueError\<close> too, for a latitude it does not accept, and a store
  that enforces the foreign keys declared in \<^verbatim>\<open>app/models.py\<close> ends a commit that
  breaks one in \<^verbatim>\<open>IntegrityError\<close>.
\<close>

datatype error = ValueError string | RecursionError | IntegrityError

definition empty_db :: db where
  "empty_db = \<lparr>buildings = [], activities = [], organizations = [], phones = [],
     organization_activity = []\<rparr>"

section \<open>The store and the object-relational mapper\<close>

text \<open>
  An integer primary key is assigned by the store on insert: one more than the
  largest key of the table, starting at 1.
\<close>

definition next_id :: "int list \<Rightarrow> int" where
  "next_id ids = fold max ids 0 + 1"

text \<open>
  A query for whole entities that ends in \<^verbatim>\<open>.all()\<close> returns each entity once: the
  mapper filters the result rows through \<^verbatim>\<open>unique_list\<close>, which keeps the first row of
  every identity and drops the later ones. The identity of a mapped row is its
  primary key.
\<close>

fun unique_list :: "('a \<Rightarrow> 'k) \<Rightarrow> 'k list \<Rightarrow> 'a list \<Rightarrow> 'a list" where
  "unique_list h seen [] = []"
| "unique_list h seen (x # xs) =
     (if h x \<in> set seen then unique_list h seen xs
      else x # unique_list h (h x # seen) xs)"

text \<open>
  \<^verbatim>\<open>db.query(Organization).join(organization_activity)\<close>: the inner join of the
  organizations with the link rows that carry their id.
\<close>

definition join_organization_activity :: "db \<Rightarrow> (organization \<times> (int \<times> int)) list" where
  "join_organization_activity s =
     concat (map (\<lambda>org. map (\<lambda>l. (org, l))
                    (filter (\<lambda>l. fst l = o_id org) (organization_activity s)))
               (organizations s))"

text \<open>Python's truth value of an \<^verbatim>\<open>Optional[int]\<close>: \<^verbatim>\<open>None\<close> and \<^verbatim>\<open>0\<close> are false.\<close>

definition truthy :: "int option \<Rightarrow> bool" where
  "truthy v = (case v of None \<Rightarrow> False | Some n \<Rightarrow> n \<noteq> 0)"

section \<open>Read and search operations (app/crud.py)\<close>

text \<open>
  Every service function takes the data state and returns its result together with
  the data state it leaves behind.
\<close>

definition get_building :: "db \<Rightarrow> int \<Rightarrow> building option \<times> db" where
  "get_building s building_id = (find (\<lambda>b. b_id b = building_id) (buildings s), s)"

text \<open>\<^verbatim>\<open>skip\<close> and \<^verbatim>\<open>limit\<close> are taken non-negative, as the store's OFFSET and LIMIT need.\<close>

definition get_buildings :: "db \<Rightarrow> nat \<Rightarrow> nat \<Rightarrow> building list \<times> db" where
  "get_buildings s skip limit = (take limit (drop skip (buildings s)), s)"

definition get_organizations_in_building :: "db \<Rightarrow> int \<Rightarrow> organization list \<times> db" where
  "get_organizations_in_building s building_id =
     (filter (\<lambda>org. o_building_id org = building_id) (organizations s), s)"

text \<open>
  The nested function \<^verbatim>\<open>get_all_children\<close> calls itself once per child row. The
  first argument is the number of nested calls the interpreter still allows; with
  none left the call ends in \<^verbatim>\<open>RecursionError\<close>, here \<open>None\<close>.
\<close>

fun get_all_children :: "nat \<Rightarrow> db \<Rightarrow> activity \<Rightarrow> activity list option" where
  "get_all_children 0 s act = None"
| "get_all_children (Suc depth) s act =
     (let children = filter (\<lambda>a. a_parent_id a = Some (a_id act)) (activities s)
      in map_option (\<lambda>rs. act # concat rs)
           (those (map (get_all_children depth s) children)))"

definition get_organizations_by_activity ::
    "nat \<Rightarrow> db \<Rightarrow> int \<Rightarrow> (error + organization list) \<times> db" where
  "get_organizations_by_activity depth s activity_id =
     (case find (\<lambda>a. a_id a = activity_id) (activities s) of
        None \<Rightarrow> (Inr [], s)
      | Some act \<Rightarrow>
          (case get_all_children depth s act of
             None \<Rightarrow> (Inl RecursionError, s)
           | Some all_activities \<Rightarrow>
               (let activity_ids = map a_id all_activities
                in (Inr (unique_list o_id []
                      (map fst (filter (\<lambda>r. snd (snd r) \<in> set activity_ids)
                                  (join_organization_activity s)))), s))))"

text \<open>
  \<^verbatim>\<open>geodesic(target, building_loc).km\<close> is a call into the geopy library. geopy turns
  both arguments into points and refuses a latitude outside \<open>[-90, 90]\<close> with
  \<^verbatim>\<open>ValueError\<close>; neither the query point nor the coordinates of a stored building are
  validated before the call. The distance geopy computes for two points it accepts
  is a parameter of the model.
\<close>

definition geodesic ::
    "(real \<times> real \<Rightarrow> real \<times> real \<Rightarrow> real) \<Rightarrow> real \<times> real \<Rightarrow> real \<times> real \<Rightarrow> error + real" where
  "geodesic geodesic_km p q =
     (if \<bar>fst p\<bar> > 90 \<or> \<bar>fst q\<bar> > 90
      then Inl (ValueError ''Latitude must be in the [-90; 90] range.'')
      else Inr (geodesic_km p q))"

text \<open>
  The loop over the buildings: it collects the ids of the buildings within the
  radius and ends at the first distance call that raises.
\<close>

fun radius_loop ::
    "(real \<times> real \<Rightarrow> real \<times> real \<Rightarrow> real) \<Rightarrow> real \<times> real \<Rightarrow> real \<Rightarrow> building list \<Rightarrow> int list
       \<Rightarrow> error + int list" where
  "radius_loop geodesic_km target radius_km [] filtered_building_ids =
     Inr filtered_building_ids"
| "radius_loop geodesic_km target radius_km (b # bs) filtered_building_ids =
     (case geodesic geodesic_km target (b_latitude b, b_longitude b) of
        Inl e \<Rightarrow> Inl e
      | Inr km \<Rightarrow>
          radius_loop geodesic_km target radius_km bs
            (if km \<le> radius_km then filtered_building_ids @ [b_id b]
             else filtered_building_ids))"

definition get_organizations_by_radius ::
    "(real \<times> real \<Rightarrow> real \<times> real \<Rightarrow> real) \<Rightarrow> db \<Rightarrow> real \<Rightarrow> real \<Rightarrow> real
       \<Rightarrow> (error + organization list) \<times> db" where
  "get_organizations_by_radius geodesic_km s lat lon radius_km =
     (let target = (lat, lon)
      in case radius_loop geodesic_km target radius_km (buildings s) [] of
           Inl e \<Rightarrow> (Inl e, s)
         | Inr filtered_building_ids \<Rightarrow>
             (Inr (filter (\<lambda>org. o_building_id org \<in> set filtered_building_ids)
                     (organizations s)), s))"

definition get_organizations_by_bbox ::
    "db \<Rightarrow> real \<Rightarrow> real \<Rightarrow> real \<Rightarrow> real \<Rightarrow> organization list \<times> db" where
  "get_organizations_by_bbox s min_lat max_lat min_lon max_lon =
     (let building_ids =
            map b_id (filter (\<lambda>b. b_latitude b \<ge> min_lat \<and> b_latitude b \<le> max_lat \<and>
                                   b_longitude b \<ge> min_lon \<and> b_longitude b \<le> max_lon)
                        (buildings s))
      in (filter (\<lambda>org. o_building_id org \<in> set building_ids) (organizations s), s))"

definition get_organization :: "db \<Rightarrow> int \<Rightarrow> organization option \<times> db" where
  "get_organization s org_id = (find (\<lambda>org. o_id org = org_id) (organizations s), s)"

text \<open>
  \<^verbatim>\<open>Organization.name.ilike(f"%{name}%")\<close>. The argument is pasted between two \<open>%\<close>
  signs and the whole is handed to the store as an SQL LIKE pattern, in which \<open>%\<close>
  (code point 37) stands for any run of characters and \<open>_\<close> (code point 95) for any
  single character. ILIKE compares after case folding; the folding of a character
  is the store's, a parameter of the model. Which character escapes a wildcard is
  the store's choice as well (PostgreSQL takes the backslash, code point 92) and is
  not modelled: \<open>like_match\<close> is the store's matching for patterns without a
  backslash.
\<close>

fun like_match :: "nat list \<Rightarrow> nat list \<Rightarrow> bool" where
  "like_match [] t = (t = [])"
| "like_match (p # ps) [] = (p = 37 \<and> like_match ps [])"
| "like_match (p # ps) (c # cs) =
     (if p = 37 then like_match ps (c # cs) \<or> like_match (p # ps) cs
      else (p = 95 \<or> p = c) \<and> like_match ps cs)"

definition ilike :: "(nat \<Rightarrow> nat) \<Rightarrow> ustring \<Rightarrow> ustring \<Rightarrow> bool" where
  "ilike lower pattern t = like_match (map lower pattern) (map lower t)"

definition get_organizations_by_name ::
    "(nat \<Rightarrow> nat) \<Rightarrow> db \<Rightarrow> ustring \<Rightarrow> organization list \<times> db" where
  "get_organizations_by_name lower s name =
     (filter (\<lambda>org. ilike lower (37 # name @ [37]) (o_name org)) (organizations s), s)"

section \<open>Create operations (app/crud.py)\<close>

text \<open>
  \<^verbatim>\<open>db.add\<close>, \<^verbatim>\<open>db.commit\<close> and \<^verbatim>\<open>db.refresh\<close>: the row is appended to its table with
  the key the store assigns, and comes back with that key.
\<close>

definition create_building :: "db \<Rightarrow> building_create \<Rightarrow> building \<times> db" where
  "create_building s bc =
     (let db_building = \<lparr>b_id = next_id (map b_id (buildings s)),
                         b_address = bc_address bc,
                         b_latitude = bc_latitude bc,
                         b_longitude = bc_longitude bc\<rparr>
      in (db_building, s\<lparr>buildings := buildings s @ [db_building]\<rparr>))"

definition add_activity :: "db \<Rightarrow> activity_create \<Rightarrow> int \<Rightarrow> (error + activity) \<times> db" where
  "add_activity s ac level =
     (let db_activity = \<lparr>a_id = next_id (map a_id (activities s)),
                         a_name = ac_name ac,
                         a_parent_id = ac_parent_id ac,
                         a_level = level\<rparr>
      in (Inr db_activity, s\<lparr>activities := activities s @ [db_activity]\<rparr>))"

definition create_activity :: "db \<Rightarrow> activity_create \<Rightarrow> (error + activity) \<times> db" where
  "create_activity s ac =
     (if truthy (ac_parent_id ac) then
        (case find (\<lambda>a. Some (a_id a) = ac_parent_id ac) (activities s) of
           None \<Rightarrow> (Inl (ValueError ''Parent activity not found''), s)
         | Some parent \<Rightarrow>
             (let level = a_level parent + 1
              in if level > 2 then (Inl (ValueError ''Maximum nesting level is 3''), s)
                 else add_activity s ac level))
      else add_activity s ac 0)"

text \<open>
  The loop over \<^verbatim>\<open>org.phone_numbers\<close>: one phone row per number, in order. The
  link rows of the new organization are written here in the order of the activity
  query; the mapper itself fixes no order among them.
\<close>

fun add_phones :: "db \<Rightarrow> int \<Rightarrow> ustring list \<Rightarrow> db" where
  "add_phones s org_id [] = s"
| "add_phones s org_id (number # numbers) =
     add_phones
       (s\<lparr>phones := phones s @
            [\<lparr>p_id = next_id (map p_id (phones s)), p_number = number,
              p_organization_id = org_id\<rparr>]\<rparr>)
       org_id numbers"

definition create_organization :: "db \<Rightarrow> organization_create \<Rightarrow> organization \<times> db" where
  "create_organization s oc =
     (let db_org = \<lparr>o_id = next_id (map o_id (organizations s)),
                    o_name = oc_name oc,
                    o_building_id = oc_building_id oc\<rparr>;
          s1 = s\<lparr>organizations := organizations s @ [db_org]\<rparr>;
          s2 = add_phones s1 (o_id db_org) (oc_phone_numbers oc);
          acts = filter (\<lambda>a. a_id a \<in> set (oc_activity_ids oc)) (activities s2);
          s3 = s2\<lparr>organization_activity :=
                    organization_activity s2 @ map (\<lambda>a. (o_id db_org, a_id a)) acts\<rparr>
      in (db_org, s3))"

text \<open>
  The relationship \<^verbatim>\<open>Organization.activities\<close> of a row, as the mapper loads it
  through the link table.
\<close>

definition organization_activities :: "db \<Rightarrow> organization \<Rightarrow> activity list" where
  "organization_activities s org =
     filter (\<lambda>a. (o_id org, a_id a) \<in> set (organization_activity s)) (activities s)"

text \<open>
  The functions above are the code on a store that checks nothing at commit.
  \<^verbatim>\<open>app/models.py\<close> declares foreign keys: \<^verbatim>\<open>activities.parent_id\<close> on the activities,
  \<^verbatim>\<open>organizations.building_id\<close> on the buildings, and the phone and link rows on the
  organization and activities they name. A store that enforces them refuses, with
  \<^verbatim>\<open>IntegrityError\<close>, a commit whose new rows name a row that does not exist, and then
  keeps none of them. The phone and link rows that \<^verbatim>\<open>create_organization\<close> writes name
  the new organization and activities the query has just found, so the keys that
  can fail are the parent of a new activity and the building of a new organization.
\<close>

definition create_activity_enforcing ::
    "db \<Rightarrow> activity_create \<Rightarrow> (error + activity) \<times> db" where
  "create_activity_enforcing s ac =
     (case create_activity s ac of
        (Inl e, s') \<Rightarrow> (Inl e, s')
      | (Inr db_activity, s') \<Rightarrow>
          (case a_parent_id db_activity of
             None \<Rightarrow> (Inr db_activity, s')
           | Some p \<Rightarrow>
               if p \<in> set (map a_id (activities s')) then (Inr db_activity, s')
               else (Inl IntegrityError, s)))"

definition create_organization_enforcing ::
    "db \<Rightarrow> organization_create \<Rightarrow> (error + organization) \<times> db" where
  "create_organization_enforcing s oc =
     (if oc_building_id oc \<in> set (map b_id (buildings s))
      then (Inr (fst (create_organization s oc)), snd (create_organization s oc))
      else (Inl IntegrityError, s))"

text \<open>
  The data states the create operations build from the empty store, on a store that
  enforces the foreign keys (\<open>True\<close>) and on one that does not (\<open>False\<close>).
\<close>

inductive reachable :: "bool \<Rightarrow> db \<Rightarrow> bool" where
  reachable_empty: "reachable enforcing empty_db"
| reachable_building:
    "reachable enforcing s \<Longrightarrow> reachable enforcing (snd (create_building s bc))"
| reachable_activity:
    "reachable False s \<Longrightarrow> reachable False (snd (create_activity s ac))"
| reachable_organization:
    "reachable False s \<Longrightarrow> reachable False (snd (create_organization s oc))"
| reachable_activity_enforcing:
    "reachable True s \<Longrightarrow> reachable True (snd (create_activity_enforcing s ac))"
| reachable_organization_enforcing:
    "reachable True s \<Longrightarrow> reachable True (snd (create_organization_enforcing s oc))"

section \<open>The data model's rules and the specification's reading of the activity search\<close>

text \<open>
  The level rule of the data model as the rows show it: every level lies between 0
  and 2, and a row that names another row as its parent lies one level below it.
\<close>

definition activity_levels_ok :: "db \<Rightarrow> bool" where
  "activity_levels_ok s =
     list_all (\<lambda>c. 0 \<le> a_level c \<and> a_level c \<le> 2 \<and>
                 list_all (\<lambda>p. a_parent_id c = Some (a_id p) \<longrightarrow> a_level c = a_level p + 1)
                   (activities s))
       (activities s)"

text \<open>Every row of the link table carries the id of an organization of the store.\<close>

definition links_reference_organizations :: "db \<Rightarrow> bool" where
  "links_reference_organizations s =
     list_all (\<lambda>l. fst l \<in> set (map o_id (organizations s))) (organization_activity s)"

text \<open>
  The parent-to-child edges between activity ids, and the organizations the
  specification expects from the activity search: those linked to the activity or to
  one of its transitive descendants.
\<close>

definition spec_child_edges :: "db \<Rightarrow> (int \<times> int) set" where
  "spec_child_edges s = {(p, c). \<exists>a \<in> set (activities s). a_id a = c \<and> a_parent_id a = Some p}"

definition spec_organizations_by_activity :: "db \<Rightarrow> int \<Rightarrow> organization set" where
  "spec_organizations_by_activity s activity_id =
     {org \<in> set (organizations s).
        \<exists>d. (activity_id, d) \<in> (spec_child_edges s)\<^sup>* \<and> (o_id org, d) \<in> set (organization_activity s)}"

text \<open>
  Containment of one text in another after case folding, the specification's reading
  of the name search.
\<close>

definition spec_contains_folded :: "(nat \<Rightarrow> nat) \<Rightarrow> ustring \<Rightarrow> ustring \<Rightarrow> bool" where
  "spec_contains_folded lower name t =
     (\<exists>pre post. map lower t = pre @ map lower name @ post)"

section \<open>Sample data\<close>

text \<open>
  The rows that \<^verbatim>\<open>scripts/seed.py\<close> leaves in an empty store: two buildings, the
  activity trees
  \<open>1 \<rightarrow> {2, 3}\<close> and \<open>4 \<rightarrow> 5 \<rightarrow> 6\<close>, and two organizations, the first linked to
  activities 2 and 3, the second to activity 6.
\<close>

definition seed_db :: db where
  "seed_db =
     \<lparr>buildings =
        [\<lparr>b_id = 1,
          b_address = [1075, 46, 32, 1052, 1086, 1089, 1082, 1074, 1072, 44, 32, 1091,
                       1083, 46, 32, 1051, 1077, 1085, 1080, 1085, 1072, 32, 49, 44, 32,
                       1086, 1092, 1080, 1089, 32, 51],
          b_latitude = 55.7558, b_longitude = 37.6176\<rparr>,
         \<lparr>b_id = 2,
          b_address = [1075, 46, 32, 1057, 1072, 1085, 1082, 1090, 45, 1055, 1077, 1090,
                       1077, 1088, 1073, 1091, 1088, 1075, 44, 32, 1091, 1083, 46, 32,
                       1041, 1083, 1102, 1093, 1077, 1088, 1072, 32, 51, 50, 47, 49],
          b_latitude = 59.9343, b_longitude = 30.3351\<rparr>],
      activities =
        [\<lparr>a_id = 1, a_name = [1045, 1076, 1072], a_parent_id = None, a_level = 0\<rparr>,
         \<lparr>a_id = 2,
          a_name = [1052, 1103, 1089, 1085, 1072, 1103, 32, 1087, 1088, 1086, 1076, 1091,
                    1082, 1094, 1080, 1103],
          a_parent_id = Some 1, a_level = 1\<rparr>,
         \<lparr>a_id = 3,
          a_name = [1052, 1086, 1083, 1086, 1095, 1085, 1072, 1103, 32, 1087, 1088, 1086,
                    1076, 1091, 1082, 1094, 1080, 1103],
          a_parent_id = Some 1, a_level = 1\<rparr>,
         \<lparr>a_id = 4,
          a_name = [1040, 1074, 1090, 1086, 1084, 1086, 1073, 1080, 1083, 1080],
          a_parent_id = None, a_level = 0\<rparr>,
         \<lparr>a_id = 5, a_name = [1051, 1077, 1075, 1082, 1086, 1074, 1099, 1077],
          a_parent_id = Some 4, a_level = 1\<rparr>,
         \<lparr>a_id = 6, a_name = [1047, 1072, 1087, 1095, 1072, 1089, 1090, 1080],
          a_parent_id = Some 5, a_level = 2\<rparr>],
      organizations =
        [\<lparr>o_id = 1,
          o_name = [1054, 1054, 1054, 32, 1056, 1086, 1075, 1072, 32, 1080, 32, 1050, 1086,
                    1087, 1099, 1090, 1072],
          o_building_id = 1\<rparr>,
         \<lparr>o_id = 2,
          o_name = [1040, 1074, 1090, 1086, 1089, 1077, 1088, 1074, 1080, 1089, 32, 1057,
                    1082, 1086, 1088, 1086, 1089, 1090, 1100],
          o_building_id = 2\<rparr>],
      phones =
        [\<lparr>p_id = 1, p_number = [50, 45, 50, 50, 50, 45, 50, 50, 50],
          p_organization_id = 1\<rparr>,
         \<lparr>p_id = 2,
          p_number = [56, 45, 57, 50, 51, 45, 54, 54, 54, 45, 49, 51, 45, 49, 51],
          p_organization_id = 1\<rparr>,
         \<lparr>p_id = 3, p_number = [51, 45, 51, 51, 51, 45, 51, 51, 51],
          p_organization_id = 2\<rparr>],
      organization_activity = [(1, 2), (1, 3), (2, 6)]\<rparr>"

text \<open>Three activities nested three levels deep: \<open>1 \<rightarrow> 2 \<rightarrow> 3\<close>.\<close>

definition three_levels :: db where
  "three_levels =
     snd (create_activity
       (snd (create_activity
         (snd (create_activity empty_db \<lparr>ac_name = [82], ac_parent_id = None\<rparr>))
         \<lparr>ac_name = [67], ac_parent_id = Some 1\<rparr>))
       \<lparr>ac_name = [71], ac_parent_id = Some 2\<rparr>)"

text \<open>
  A case folding that lowers the capital letters of the basic Latin and of the
  Russian alphabet, and a distance on the plane, to run the searches on.
\<close>

definition lower_cp :: "nat \<Rightarrow> nat" where
  "lower_cp c =
     (if 65 \<le> c \<and> c \<le> 90 then c + 32
      else if 1040 \<le> c \<and> c \<le> 1071 then c + 32
      else if c = 1025 then 1105
      else c)"

definition plane_km :: "real \<times> real \<Rightarrow> real \<times> real \<Rightarrow> real" where
  "plane_km p q = \<bar>fst p - fst q\<bar> + \<bar>snd p - snd q\<bar>"

text \<open>
  The same three activities created on a store that enforces the foreign keys.
\<close>

definition three_levels_enforcing :: db where
  "three_levels_enforcing =
     snd (create_activity_enforcing
       (snd (create_activity_enforcing
         (snd (create_activity_enforcing empty_db \<lparr>ac_name = [82], ac_parent_id = None\<rparr>))
         \<lparr>ac_name = [67], ac_parent_id = Some 1\<rparr>))
       \<lparr>ac_name = [71], ac_parent_id = Some 2\<rparr>)"

text \<open>
  The foreign key on \<^verbatim>\<open>activities.parent_id\<close> as a property of the rows: every parent
  reference that is set names an activity of the store.
\<close>

definition parents_exist :: "db \<Rightarrow> bool" where
  "parents_exist s =
     list_all (\<lambda>a. a_parent_id a = None \<or>
                 a_parent_id a \<in> set (map (\<lambda>p. Some (a_id p)) (activities s)))
       (activities s)"

text \<open>
  The level rule as \<^verbatim>\<open>create_activity\<close> applies it to a parent reference and a
  level: a reference of 0 counts as no parent.
\<close>

definition level_rule_from :: "activity list \<Rightarrow> int option \<Rightarrow> int \<Rightarrow> bool" where
  "level_rule_from acts parent level =
     (case parent of
        None \<Rightarrow> level = 0
      | Some p \<Rightarrow>
          if p = 0 then level = 0
          else \<exists>q \<in> set acts. a_id q = p \<and> level = a_level q + 1)"

text \<open>
  What the create operations keep true of the store: primary keys are positive and
  not repeated, link rows name organizations of the store, and every activity has a
  level from 0 to 2 that obeys the level rule.
\<close>

definition store_invariant :: "db \<Rightarrow> bool" where
  "store_invariant s \<longleftrightarrow>
     distinct (map a_id (activities s)) \<and>
     distinct (map o_id (organizations s)) \<and>
     links_reference_organizations s \<and>
     (\<forall>a \<in> set (activities s).
        0 < a_id a \<and> 0 \<le> a_level a \<and> a_level a \<le> 2 \<and>
        level_rule_from (activities s) (a_parent_id a) (a_level a))"


section \<open>The sample data, evaluated\<close>

lemma three_levels_eq:
  "three_levels =
     \<lparr>buildings = [],
      activities =
        [\<lparr>a_id = 1, a_name = [82], a_parent_id = None, a_level = 0\<rparr>,
         \<lparr>a_id = 2, a_name = [67], a_parent_id = Some 1, a_level = 1\<rparr>,
         \<lparr>a_id = 3, a_name = [71], a_parent_id = Some 2, a_level = 2\<rparr>],
      organizations = [], phones = [], organization_activity = []\<rparr>"
  by (simp add: three_levels_def create_activity_def add_activity_def empty_db_def
      next_id_def truthy_def Let_def)

lemma seed_db_activity_ids: "map a_id (activities seed_db) = [1, 2, 3, 4, 5, 6]"
  by (simp add: seed_db_def)

lemma three_levels_enforcing_eq: "three_levels_enforcing = three_levels"
  by (simp add: three_levels_enforcing_def three_levels_def create_activity_enforcing_def
      create_activity_def add_activity_def empty_db_def next_id_def truthy_def Let_def)

section \<open>Keys assigned by the store\<close>

lemma fold_max_bounds:
  "m \<le> fold max ids (m::int)" "i \<in> set ids \<Longrightarrow> i \<le> fold max ids m"
proof (induction ids arbitrary: m)
  case Nil
  { case 1 show ?case by simp }
  { case 2 then show ?case by simp }
next
  case (Cons x xs)
  { case 1
    have "max x m \<le> fold max xs (max x m)" by (rule Cons.IH(1))
    then show ?case by simp }
  { case 2
    have "max x m \<le> fold max xs (max x m)" by (rule Cons.IH(1))
    with 2 Cons.IH(2) [of "max x m"] show ?case by auto }
qed

lemma next_id_fresh: "i \<in> set ids \<Longrightarrow> i < next_id ids"
  using fold_max_bounds(2) [of i ids 0] by (simp add: next_id_def)

lemma next_id_positive: "0 < next_id ids"
  using fold_max_bounds(1) [of 0 ids] by (simp add: next_id_def)

lemma add_phones_frame:
  "buildings (add_phones s org_id numbers) = buildings s"
  "activities (add_phones s org_id numbers) = activities s"
  "organizations (add_phones s org_id numbers) = organizations s"
  "organization_activity (add_phones s org_id numbers) = organization_activity s"
  by (induction s org_id numbers rule: add_phones.induct) simp_all

section \<open>Read operations leave the data state alone\<close>

text \<open>
  C10. Every read and search operation returns the data state it was given: the
  buildings, activities, organizations, phones and links after the call are those
  before it, for every input.
\<close>

theorem reads_leave_state_unchanged:
  "snd (get_building s bid) = s \<and>
   snd (get_buildings s skip limit) = s \<and>
   snd (get_organization s oid) = s \<and>
   snd (get_organizations_in_building s bid) = s \<and>
   snd (get_organizations_by_activity depth s aid) = s \<and>
   snd (get_organizations_by_radius geodesic_km s lat lon radius_km) = s \<and>
   snd (get_organizations_by_bbox s min_lat max_lat min_lon max_lon) = s \<and>
   snd (get_organizations_by_name lower s name) = s"
  by (simp add: get_building_def get_buildings_def get_organization_def
      get_organizations_in_building_def get_organizations_by_activity_def
      get_organizations_by_radius_def get_organizations_by_bbox_def
      get_organizations_by_name_def Let_def split: option.split sum.split)

section \<open>Creating activities\<close>

text \<open>
  What \<^verbatim>\<open>create_activity\<close> does for every parent reference other than 0: it is
  rejected when the reference names no activity or the parent sits at level 2, and
  otherwise the new row carries the request's name and parent reference at a level
  that obeys the level rule.
\<close>

lemma create_activity_rejects_iff:
  assumes "ac_parent_id ac \<noteq> Some 0"
  shows "(\<exists>msg. fst (create_activity s ac) = Inl (ValueError msg)) \<longleftrightarrow>
    (\<exists>p. ac_parent_id ac = Some p \<and>
       (p \<notin> a_id ` set (activities s) \<or>
        (\<exists>parent. find (\<lambda>a. a_id a = p) (activities s) = Some parent \<and>
           2 < a_level parent + 1)))"
proof (cases "ac_parent_id ac")
  case None
  then show ?thesis
    by (simp add: create_activity_def add_activity_def truthy_def Let_def)
next
  case (Some p)
  with assms have p: "p \<noteq> 0" by simp
  show ?thesis
  proof (cases "find (\<lambda>a. a_id a = p) (activities s)")
    case None
    then have "p \<notin> a_id ` set (activities s)"
      by (auto simp: find_None_iff)
    with None Some p show ?thesis
      by (simp add: create_activity_def truthy_def)
  next
    case (Some parent)
    then have "p \<in> a_id ` set (activities s)"
      by (auto simp: find_Some_iff)
    with Some \<open>ac_parent_id ac = Some p\<close> p show ?thesis
      by (simp add: create_activity_def add_activity_def truthy_def Let_def)
  qed
qed

lemma create_activity_created:
  assumes made: "fst (create_activity s ac) = Inr a"
  shows "a_name a = ac_name ac \<and> a_parent_id a = ac_parent_id ac \<and>
    activities (snd (create_activity s ac)) = activities s @ [a] \<and>
    level_rule_from (activities s) (ac_parent_id ac) (a_level a)"
proof (cases "truthy (ac_parent_id ac)")
  case False
  then have "level_rule_from (activities s) (ac_parent_id ac) 0"
    by (auto simp: truthy_def level_rule_from_def split: option.splits)
  with False made show ?thesis
    by (auto simp: create_activity_def add_activity_def Let_def)
next
  case True
  then obtain p where p: "ac_parent_id ac = Some p" "p \<noteq> 0"
    by (auto simp: truthy_def split: option.splits)
  from True made obtain parent where
    found: "find (\<lambda>a. Some (a_id a) = ac_parent_id ac) (activities s) = Some parent"
    by (cases "find (\<lambda>a. Some (a_id a) = ac_parent_id ac) (activities s)")
      (auto simp: create_activity_def)
  then have parent: "parent \<in> set (activities s)" "a_id parent = p"
    using p by (auto simp: find_Some_iff)
  from True made found have low: "\<not> 2 < a_level parent + 1"
    by (auto simp: create_activity_def Let_def split: if_splits)
  have "level_rule_from (activities s) (ac_parent_id ac) (a_level parent + 1)"
    using p parent by (auto simp: level_rule_from_def)
  with True made found low show ?thesis
    by (auto simp: create_activity_def add_activity_def Let_def)
qed

text \<open>
  On a store that enforces the foreign key the same request is refused at commit,
  with \<^verbatim>\<open>IntegrityError\<close> and not with the validation error.
\<close>

lemma create_activity_parent_zero_enforcing:
  "create_activity_enforcing empty_db \<lparr>ac_name = name, ac_parent_id = Some 0\<rparr> =
     (Inl IntegrityError, empty_db)"
  by (simp add: create_activity_enforcing_def create_activity_def add_activity_def truthy_def
      next_id_def empty_db_def Let_def)

text \<open>
  C2. The claim: \<^verbatim>\<open>create_activity\<close> fails with a validation error exactly when a
  parent id is given and names no activity, or the computed level exceeds 2. The
  code tests the parent id for truth, so a parent id of 0 skips the lookup: on the
  empty store, where no activity has id 0, the request is not rejected but stored
  at level 0 with the parent reference 0.
\<close>

theorem create_activity_parent_zero_not_rejected:
  "create_activity empty_db \<lparr>ac_name = name, ac_parent_id = Some 0\<rparr> =
     (Inr \<lparr>a_id = 1, a_name = name, a_parent_id = Some 0, a_level = 0\<rparr>,
      empty_db\<lparr>activities :=
        [\<lparr>a_id = 1, a_name = name, a_parent_id = Some 0, a_level = 0\<rparr>]\<rparr>) \<and>
   find (\<lambda>a. a_id a = 0) (activities empty_db) = None"
  by (simp add: create_activity_def add_activity_def truthy_def next_id_def empty_db_def
      Let_def)

text \<open>
  C3. When \<^verbatim>\<open>create_activity\<close> ends in an error (parent not found, or maximum
  nesting exceeded), the data state it leaves is the one it was given; in particular
  the number of activities is unchanged.
\<close>

theorem create_activity_failure_keeps_state:
  "fst (create_activity s ac) = Inl e \<Longrightarrow>
   snd (create_activity s ac) = s \<and>
   length (activities (snd (create_activity s ac))) = length (activities s)"
  by (auto simp: create_activity_def add_activity_def Let_def
      split: if_splits option.splits)

theorem create_activity_failure_keeps_state_witness:
  "fst (create_activity three_levels \<lparr>ac_name = [68], ac_parent_id = Some 3\<rparr>) =
     Inl (ValueError ''Maximum nesting level is 3'') \<and>
   snd (create_activity three_levels \<lparr>ac_name = [68], ac_parent_id = Some 3\<rparr>) =
     three_levels \<and>
   length (activities
     (snd (create_activity three_levels \<lparr>ac_name = [68], ac_parent_id = Some 3\<rparr>))) = 3"
proof -
  have failed:
    "fst (create_activity three_levels \<lparr>ac_name = [68], ac_parent_id = Some 3\<rparr>) =
       Inl (ValueError ''Maximum nesting level is 3'')"
    by (simp add: three_levels_eq create_activity_def truthy_def Let_def)
  have "length (activities three_levels) = 3"
    by (simp add: three_levels_eq)
  with failed create_activity_failure_keeps_state [OF failed] show ?thesis
    by simp
qed

section \<open>What the create operations keep true\<close>

lemma level_rule_from_mono:
  "level_rule_from acts parent level \<Longrightarrow> set acts \<subseteq> set acts' \<Longrightarrow>
   level_rule_from acts' parent level"
  by (auto simp: level_rule_from_def split: option.splits if_splits)

lemma store_invariant_building:
  "store_invariant s \<Longrightarrow> store_invariant (snd (create_building s bc))"
  by (simp add: create_building_def Let_def store_invariant_def
      links_reference_organizations_def)

lemma store_invariant_add_activity:
  assumes inv: "store_invariant s"
    and lvl: "0 \<le> level" "level \<le> 2"
    and parent: "level_rule_from (activities s) (ac_parent_id ac) level"
  shows "store_invariant (snd (add_activity s ac level))"
proof -
  let ?new = "\<lparr>a_id = next_id (map a_id (activities s)), a_name = ac_name ac,
               a_parent_id = ac_parent_id ac, a_level = level\<rparr>"
  have state: "snd (add_activity s ac level) = s\<lparr>activities := activities s @ [?new]\<rparr>"
    by (simp add: add_activity_def Let_def)
  have fresh: "a_id ?new \<notin> set (map a_id (activities s))"
    using next_id_fresh [of "a_id ?new" "map a_id (activities s)"] by auto
  have new_ok: "0 < a_id ?new" using next_id_positive by simp
  have grow: "level_rule_from (activities s @ [?new]) p l"
    if "level_rule_from (activities s) p l" for p l
    using that by (rule level_rule_from_mono) auto
  from inv fresh new_ok lvl parent show ?thesis
    unfolding state store_invariant_def links_reference_organizations_def
    by (auto intro: grow)
qed

lemma store_invariant_activity:
  assumes inv: "store_invariant s"
  shows "store_invariant (snd (create_activity s ac))"
proof (cases "truthy (ac_parent_id ac)")
  case False
  then have "level_rule_from (activities s) (ac_parent_id ac) 0"
    by (auto simp: truthy_def level_rule_from_def split: option.splits)
  from store_invariant_add_activity [OF inv _ _ this] False show ?thesis
    by (simp add: create_activity_def)
next
  case True
  then obtain p where p: "ac_parent_id ac = Some p" "p \<noteq> 0"
    by (auto simp: truthy_def split: option.splits)
  show ?thesis
  proof (cases "find (\<lambda>a. Some (a_id a) = ac_parent_id ac) (activities s)")
    case None
    with True inv show ?thesis by (simp add: create_activity_def)
  next
    case (Some parent)
    then have parent: "parent \<in> set (activities s)" "a_id parent = p"
      using p by (auto simp: find_Some_iff)
    with inv have lo: "0 \<le> a_level parent" by (auto simp: store_invariant_def)
    show ?thesis
    proof (cases "a_level parent + 1 > 2")
      case True
      with \<open>truthy (ac_parent_id ac)\<close> Some inv show ?thesis
        by (simp add: create_activity_def Let_def)
    next
      case False
      have "level_rule_from (activities s) (ac_parent_id ac) (a_level parent + 1)"
        using p parent by (auto simp: level_rule_from_def)
      from store_invariant_add_activity [OF inv _ _ this] lo False
      have "store_invariant (snd (add_activity s ac (a_level parent + 1)))" by simp
      with \<open>truthy (ac_parent_id ac)\<close> Some False show ?thesis
        by (simp add: create_activity_def Let_def)
    qed
  qed
qed

lemma store_invariant_organization:
  assumes inv: "store_invariant s"
  shows "store_invariant (snd (create_organization s oc))"
proof -
  have fresh: "next_id (map o_id (organizations s)) \<notin> set (map o_id (organizations s))"
    using next_id_fresh [of "next_id (map o_id (organizations s))" "map o_id (organizations s)"]
    by auto
  with inv show ?thesis
    by (auto simp: create_organization_def Let_def store_invariant_def add_phones_frame
        links_reference_organizations_def list_all_iff)
qed

lemma create_activity_error_state:
  "create_activity s ac = (Inl e, s') \<Longrightarrow> s' = s"
  by (auto simp: create_activity_def add_activity_def Let_def split: if_splits option.splits)

lemma create_activity_enforcing_state:
  "snd (create_activity_enforcing s ac) = s \<or>
   snd (create_activity_enforcing s ac) = snd (create_activity s ac)"
  by (auto simp: create_activity_enforcing_def split: prod.splits sum.splits option.splits)

lemma create_organization_enforcing_state:
  "snd (create_organization_enforcing s oc) = s \<or>
   snd (create_organization_enforcing s oc) = snd (create_organization s oc)"
  by (simp add: create_organization_enforcing_def)

lemma store_invariant_activity_enforcing:
  "store_invariant s \<Longrightarrow> store_invariant (snd (create_activity_enforcing s ac))"
  using create_activity_enforcing_state [of s ac] store_invariant_activity [of s ac]
  by auto

lemma store_invariant_organization_enforcing:
  "store_invariant s \<Longrightarrow> store_invariant (snd (create_organization_enforcing s oc))"
  using create_organization_enforcing_state [of s oc] store_invariant_organization [of s oc]
  by auto

lemma reachable_store_invariant: "reachable enforcing s \<Longrightarrow> store_invariant s"
proof (induction rule: reachable.induct)
  case (reachable_empty enforcing)
  show ?case
    by (simp add: store_invariant_def empty_db_def links_reference_organizations_def)
next
  case (reachable_building enforcing s bc)
  then show ?case by (simp add: store_invariant_building)
next
  case (reachable_activity s ac)
  then show ?case by (simp add: store_invariant_activity)
next
  case (reachable_organization s oc)
  then show ?case by (simp add: store_invariant_organization)
next
  case (reachable_activity_enforcing s ac)
  then show ?case by (simp add: store_invariant_activity_enforcing)
next
  case (reachable_organization_enforcing s oc)
  then show ?case by (simp add: store_invariant_organization_enforcing)
qed

text \<open>
  On a store that enforces the foreign keys every parent reference that is set names
  an activity of the store.
\<close>

lemma parents_exist_activity_enforcing:
  assumes ok: "parents_exist s"
  shows "parents_exist (snd (create_activity_enforcing s ac))"
proof (cases "create_activity s ac")
  case (Pair res s')
  show ?thesis
  proof (cases res)
    case (Inl e)
    with Pair create_activity_error_state [of s ac e s'] ok show ?thesis
      by (simp add: create_activity_enforcing_def)
  next
    case (Inr a)
    with Pair have made: "fst (create_activity s ac) = Inr a" and s': "snd (create_activity s ac) = s'"
      by simp_all
    from create_activity_created [OF made] s' have rows: "activities s' = activities s @ [a]"
      by simp
    have old: "list_all (\<lambda>a. a_parent_id a = None \<or>
        a_parent_id a \<in> set (map (\<lambda>p. Some (a_id p)) (activities s'))) (activities s)"
      using ok unfolding parents_exist_def rows list_all_iff
      by auto
    show ?thesis
    proof (cases "a_parent_id a")
      case None
      with Pair Inr old rows show ?thesis
        by (simp add: create_activity_enforcing_def parents_exist_def)
    next
      case (Some p)
      show ?thesis
      proof (cases "p \<in> set (map a_id (activities s'))")
        case True
        with Pair Inr Some old rows show ?thesis
          by (auto simp: create_activity_enforcing_def parents_exist_def)
      next
        case False
        with Pair Inr Some ok show ?thesis
          by (simp add: create_activity_enforcing_def)
      qed
    qed
  qed
qed

lemma parents_exist_organization_enforcing:
  "parents_exist s \<Longrightarrow> parents_exist (snd (create_organization_enforcing s oc))"
  by (simp add: create_organization_enforcing_def create_organization_def Let_def
      parents_exist_def add_phones_frame)

lemma parents_exist_building:
  "parents_exist s \<Longrightarrow> parents_exist (snd (create_building s bc))"
  by (simp add: create_building_def Let_def parents_exist_def)

lemma reachable_enforcing_parents_exist:
  "reachable enforcing s \<Longrightarrow> enforcing \<Longrightarrow> parents_exist s"
proof (induction rule: reachable.induct)
  case (reachable_empty enforcing)
  show ?case by (simp add: parents_exist_def empty_db_def)
next
  case (reachable_building enforcing s bc)
  then show ?case by (simp add: parents_exist_building)
next
  case (reachable_activity s ac)
  then show ?case by simp
next
  case (reachable_organization s oc)
  then show ?case by simp
next
  case (reachable_activity_enforcing s ac)
  then show ?case by (simp add: parents_exist_activity_enforcing)
next
  case (reachable_organization_enforcing s oc)
  then show ?case by (simp add: parents_exist_organization_enforcing)
qed

lemma store_invariant_levels_ok:
  assumes inv: "store_invariant s"
  shows "activity_levels_ok s"
proof -
  have "a_level c = a_level p + 1"
    if c: "c \<in> set (activities s)" and p: "p \<in> set (activities s)"
      and ref: "a_parent_id c = Some (a_id p)" for c p
  proof -
    from inv p have "a_id p \<noteq> 0" by (auto simp: store_invariant_def)
    with inv c ref obtain q where q: "q \<in> set (activities s)" "a_id q = a_id p"
      "a_level c = a_level q + 1"
      by (fastforce simp: store_invariant_def level_rule_from_def)
    from inv have "inj_on a_id (set (activities s))"
      by (simp add: store_invariant_def distinct_map)
    with q(1,2) p have "q = p" by (auto dest: inj_onD)
    with q(3) show ?thesis by simp
  qed
  with inv show ?thesis
    by (auto simp: activity_levels_ok_def list_all_iff store_invariant_def)
qed

text \<open>
  C4. In every data state that the create operations build from the empty store,
  whether or not the store enforces the foreign keys, every activity has a level
  from 0 to 2, an activity without a parent reference has level 0, and an activity
  whose parent reference names an activity has that activity's level plus 1. On a
  store that enforces the foreign keys every parent reference that is set names an
  activity, so there the rule holds of every parent reference that is set.
\<close>

theorem reachable_states_obey_level_rule:
  assumes reach: "reachable enforcing s"
    and row: "a \<in> set (activities s)"
  shows "0 \<le> a_level a \<and> a_level a \<le> 2 \<and>
    (a_parent_id a = None \<longrightarrow> a_level a = 0) \<and>
    (\<forall>p \<in> set (activities s). a_parent_id a = Some (a_id p) \<longrightarrow> a_level a = a_level p + 1) \<and>
    (enforcing \<longrightarrow>
       (\<forall>i. a_parent_id a = Some i \<longrightarrow>
          (\<exists>p \<in> set (activities s). a_id p = i \<and> a_level a = a_level p + 1)))"
proof -
  from reach have inv: "store_invariant s"
    by (rule reachable_store_invariant)
  then have ok: "activity_levels_ok s"
    by (rule store_invariant_levels_ok)
  from inv row have bounds: "0 \<le> a_level a" "a_level a \<le> 2"
    and rule: "level_rule_from (activities s) (a_parent_id a) (a_level a)"
    by (auto simp: store_invariant_def)
  from rule have root: "a_parent_id a = None \<longrightarrow> a_level a = 0"
    by (auto simp: level_rule_from_def)
  have child: "a_level a = a_level p + 1"
    if "p \<in> set (activities s)" "a_parent_id a = Some (a_id p)" for p
    using ok row that by (auto simp: activity_levels_ok_def list_all_iff)
  have named: "\<exists>p \<in> set (activities s). a_id p = i \<and> a_level a = a_level p + 1"
    if enforcing and ref: "a_parent_id a = Some i" for i
  proof -
    from reachable_enforcing_parents_exist [OF reach \<open>enforcing\<close>] row ref
    have "i \<in> set (map a_id (activities s))"
      by (fastforce simp: parents_exist_def list_all_iff)
    then obtain p where p: "p \<in> set (activities s)" "a_id p = i"
      by auto
    with child [of p] ref show ?thesis by auto
  qed
  from bounds root child named show ?thesis by blast
qed

theorem reachable_states_obey_level_rule_witness:
  "reachable True three_levels_enforcing \<and>
   \<lparr>a_id = 3, a_name = [71], a_parent_id = Some 2, a_level = 2\<rparr>
     \<in> set (activities three_levels_enforcing) \<and>
   (\<exists>p \<in> set (activities three_levels_enforcing). a_id p = 2 \<and> (2::int) = a_level p + 1)"
proof -
  have reach: "reachable True three_levels_enforcing"
    unfolding three_levels_enforcing_def
    by (intro reachable_activity_enforcing reachable_empty)
  have row: "\<lparr>a_id = 3, a_name = [71], a_parent_id = Some 2, a_level = 2\<rparr>
      \<in> set (activities three_levels_enforcing)"
    by (simp add: three_levels_enforcing_eq three_levels_eq)
  from reachable_states_obey_level_rule [OF reach row] reach row show ?thesis
    by simp
qed

section \<open>Searching by activity\<close>

text \<open>
  C9. For an activity id that no activity of the data state carries,
  \<^verbatim>\<open>get_organizations_by_activity\<close> returns the empty list and no error.
\<close>

theorem unknown_activity_gives_empty:
  "activity_id \<notin> a_id ` set (activities s) \<Longrightarrow>
   fst (get_organizations_by_activity depth s activity_id) = Inr []"
proof -
  assume "activity_id \<notin> a_id ` set (activities s)"
  then have "find (\<lambda>a. a_id a = activity_id) (activities s) = None"
    by (auto simp: find_None_iff)
  then show ?thesis
    by (simp add: get_organizations_by_activity_def)
qed

theorem unknown_activity_gives_empty_witness:
  "(7::int) \<notin> a_id ` set (activities seed_db) \<and>
   fst (get_organizations_by_activity 1000 seed_db 7) = Inr []"
proof -
  have "a_id ` set (activities seed_db) = set [1, 2, 3, 4, 5, 6]"
    using seed_db_activity_ids by (metis set_map)
  then have absent: "(7::int) \<notin> a_id ` set (activities seed_db)"
    by simp
  with unknown_activity_gives_empty [OF absent, of 1000] show ?thesis
    by simp
qed

text \<open>The traversal: with depth to spare it returns the rows of the subtree.\<close>

lemma those_map_Some:
  "(\<And>x. x \<in> set xs \<Longrightarrow> f x = Some (g x)) \<Longrightarrow> those (map f xs) = Some (map g xs)"
  by (induction xs) auto

lemma closure_unfold:
  "{d. (x, d) \<in> R\<^sup>*} = insert x (\<Union>c \<in> {c. (x, c) \<in> R}. {d. (c, d) \<in> R\<^sup>*})"
  by (auto elim: converse_rtranclE intro: converse_rtrancl_into_rtrancl)

lemma children_are_child_edges:
  "a_id ` set (filter (\<lambda>a. a_parent_id a = Some x) (activities s)) = {c. (x, c) \<in> spec_child_edges s}"
  by (auto simp: spec_child_edges_def)

lemma activity_levels_okD:
  assumes "activity_levels_ok s" "c \<in> set (activities s)"
  shows "0 \<le> a_level c" "a_level c \<le> 2"
    "\<And>p. p \<in> set (activities s) \<Longrightarrow> a_parent_id c = Some (a_id p) \<Longrightarrow> a_level c = a_level p + 1"
  using assms by (auto simp: activity_levels_ok_def list_all_iff)

lemma get_all_children_closure:
  assumes ok: "activity_levels_ok s"
  shows "act \<in> set (activities s) \<Longrightarrow> nat (3 - a_level act) \<le> depth \<Longrightarrow>
    \<exists>r. get_all_children depth s act = Some r \<and>
         a_id ` set r = {d. (a_id act, d) \<in> (spec_child_edges s)\<^sup>*}"
proof (induction depth arbitrary: act)
  case 0
  with activity_levels_okD(2) [OF ok] show ?case by fastforce
next
  case (Suc depth)
  let ?children = "filter (\<lambda>a. a_parent_id a = Some (a_id act)) (activities s)"
  let ?sub = "\<lambda>c. the (get_all_children depth s c)"
  have child: "get_all_children depth s c = Some (?sub c) \<and>
      a_id ` set (?sub c) = {d. (a_id c, d) \<in> (spec_child_edges s)\<^sup>*}"
    if "c \<in> set ?children" for c
  proof -
    from that have c: "c \<in> set (activities s)" "a_parent_id c = Some (a_id act)"
      by auto
    with activity_levels_okD(3) [OF ok c(1) Suc.prems(1)]
    have "a_level c = a_level act + 1" by simp
    with Suc.prems(2) have "nat (3 - a_level c) \<le> depth" by simp
    from Suc.IH [OF c(1) this] show ?thesis by auto
  qed
  then have "those (map (get_all_children depth s) ?children) = Some (map ?sub ?children)"
    by (intro those_map_Some) simp
  then have res: "get_all_children (Suc depth) s act = Some (act # concat (map ?sub ?children))"
    by (simp add: Let_def)
  have "a_id ` set (act # concat (map ?sub ?children)) =
      insert (a_id act) (\<Union>c \<in> set ?children. a_id ` set (?sub c))"
    by auto
  also have "\<dots> = insert (a_id act) (\<Union>c \<in> set ?children. {d. (a_id c, d) \<in> (spec_child_edges s)\<^sup>*})"
    using child by simp
  also have "\<dots> = insert (a_id act)
      (\<Union>i \<in> a_id ` set ?children. {d. (i, d) \<in> (spec_child_edges s)\<^sup>*})"
    by blast
  also have "\<dots> = {d. (a_id act, d) \<in> (spec_child_edges s)\<^sup>*}"
    unfolding children_are_child_edges by (rule closure_unfold [symmetric])
  finally show ?case using res by blast
qed

lemma set_joined_rows:
  "set (map fst (filter (\<lambda>r. snd (snd r) \<in> S) (join_organization_activity s))) =
     {org \<in> set (organizations s). \<exists>d \<in> S. (o_id org, d) \<in> set (organization_activity s)}"
  by (force simp: join_organization_activity_def)

lemma unique_list_keys:
  "h ` set (unique_list h seen xs) = h ` set xs - set seen"
  by (induction xs arbitrary: seen) auto

lemma unique_list_subset: "set (unique_list h seen xs) \<subseteq> set xs"
  by (induction xs arbitrary: seen) auto

lemma unique_list_distinct: "distinct (map h (unique_list h seen xs))"
proof (induction xs arbitrary: seen)
  case Nil
  show ?case by simp
next
  case (Cons x xs)
  have "h x \<notin> h ` set (unique_list h (h x # seen) xs)"
    by (simp add: unique_list_keys)
  with Cons.IH show ?case by simp
qed

lemma unique_list_set:
  assumes "inj_on h (set xs)"
  shows "set (unique_list h [] xs) = set xs"
proof
  show "set (unique_list h [] xs) \<subseteq> set xs"
    by (rule unique_list_subset)
  show "set xs \<subseteq> set (unique_list h [] xs)"
  proof
    fix x assume x: "x \<in> set xs"
    then have "h x \<in> h ` set (unique_list h [] xs)"
      by (simp add: unique_list_keys)
    then obtain y where y: "y \<in> set (unique_list h [] xs)" "h y = h x"
      by auto
    with unique_list_subset [of h "[]" xs] have "y \<in> set xs" by auto
    with assms x y(2) have "y = x" by (auto dest: inj_onD)
    with y(1) show "x \<in> set (unique_list h [] xs)" by simp
  qed
qed

text \<open>
  C1. In a data state whose activities obey the level rule and whose organizations
  have distinct ids, and with a recursion limit that allows three nested calls,
  \<^verbatim>\<open>get_organizations_by_activity\<close> for an existing activity id returns exactly the
  organizations linked to that activity or to one of its transitive descendants,
  each of them once.
\<close>

theorem activity_search_returns_subtree_organizations:
  assumes ok: "activity_levels_ok s"
    and keys: "distinct (map o_id (organizations s))"
    and depth: "3 \<le> depth"
    and known: "activity_id \<in> a_id ` set (activities s)"
  shows "\<exists>orgs. fst (get_organizations_by_activity depth s activity_id) = Inr orgs \<and>
           set orgs = spec_organizations_by_activity s activity_id \<and>
           distinct (map o_id orgs)"
proof -
  from known obtain act where
    act: "find (\<lambda>a. a_id a = activity_id) (activities s) = Some act"
    by (cases "find (\<lambda>a. a_id a = activity_id) (activities s)") (auto simp: find_None_iff)
  then have act_in: "act \<in> set (activities s)" and act_id: "a_id act = activity_id"
    by (auto simp: find_Some_iff)
  from activity_levels_okD(1) [OF ok act_in] depth have "nat (3 - a_level act) \<le> depth"
    by simp
  from get_all_children_closure [OF ok act_in this] obtain r where
    r: "get_all_children depth s act = Some r"
      "a_id ` set r = {d. (activity_id, d) \<in> (spec_child_edges s)\<^sup>*}"
    using act_id by auto
  let ?rows = "map fst (filter (\<lambda>row. snd (snd row) \<in> set (map a_id r))
                  (join_organization_activity s))"
  have result: "fst (get_organizations_by_activity depth s activity_id) =
      Inr (unique_list o_id [] ?rows)"
    by (simp add: get_organizations_by_activity_def act r(1) Let_def)
  have rows: "set ?rows = spec_organizations_by_activity s activity_id"
    unfolding set_joined_rows spec_organizations_by_activity_def using r(2) by auto
  have "set ?rows \<subseteq> set (organizations s)"
    unfolding set_joined_rows by auto
  with keys have "inj_on o_id (set ?rows)"
    by (auto simp: distinct_map intro: inj_on_subset)
  then have "set (unique_list o_id [] ?rows) = set ?rows"
    by (rule unique_list_set)
  with result rows unique_list_distinct [of o_id "[]" ?rows] show ?thesis
    by simp
qed

theorem activity_search_returns_subtree_organizations_witness:
  "activity_levels_ok seed_db \<and>
   distinct (map o_id (organizations seed_db)) \<and>
   (3::nat) \<le> 3 \<and>
   (1::int) \<in> a_id ` set (activities seed_db) \<and>
   (\<exists>orgs. fst (get_organizations_by_activity 3 seed_db 1) = Inr orgs \<and>
      set orgs = spec_organizations_by_activity seed_db 1 \<and>
      distinct (map o_id orgs)) \<and>
   map_sum id (map o_id) (fst (get_organizations_by_activity 3 seed_db 1)) = Inr [1]"
proof -
  have ok: "activity_levels_ok seed_db"
    by (simp add: activity_levels_ok_def seed_db_def)
  have keys: "distinct (map o_id (organizations seed_db))"
    by (simp add: seed_db_def)
  have known: "(1::int) \<in> a_id ` set (activities seed_db)"
    using seed_db_activity_ids by (metis list.set_intros(1) set_map)
  have run: "map_sum id (map o_id) (fst (get_organizations_by_activity 3 seed_db 1)) = Inr [1]"
    by (simp add: get_organizations_by_activity_def join_organization_activity_def
        seed_db_def numeral_3_eq_3 Let_def)
  from activity_search_returns_subtree_organizations [OF ok keys _ known, of 3] ok keys known run
  show ?thesis by simp
qed

section \<open>Searching by position\<close>

lemma in_set_map_b_id:
  "(x \<in> set (map b_id (filter P bs))) = (\<exists>b \<in> set bs. b_id b = x \<and> P b)"
  by auto

text \<open>
  C6. \<^verbatim>\<open>get_organizations_by_bbox\<close> returns exactly the organizations whose
  building lies within the box, both ends included; with equal bounds these are the
  organizations of the buildings at that very coordinate.
\<close>

theorem bbox_search_inclusive:
  "fst (get_organizations_by_bbox s min_lat max_lat min_lon max_lon) =
     filter (\<lambda>org. \<exists>b \<in> set (buildings s). b_id b = o_building_id org \<and>
                min_lat \<le> b_latitude b \<and> b_latitude b \<le> max_lat \<and>
                min_lon \<le> b_longitude b \<and> b_longitude b \<le> max_lon)
       (organizations s) \<and>
   fst (get_organizations_by_bbox s lat lat lon lon) =
     filter (\<lambda>org. \<exists>b \<in> set (buildings s). b_id b = o_building_id org \<and>
                b_latitude b = lat \<and> b_longitude b = lon)
       (organizations s)"
proof -
  have point: "(lat \<le> x \<and> x \<le> lat \<and> lon \<le> y \<and> y \<le> lon) = (x = lat \<and> y = lon)"
    for x y :: real
    by auto
  show ?thesis
    unfolding get_organizations_by_bbox_def Let_def fst_conv in_set_map_b_id point
    by simp
qed

text \<open>
  The loop of the radius search: with every latitude it passes to geopy in range it
  collects the ids of the buildings within the radius, and otherwise it ends in
  geopy's \<^verbatim>\<open>ValueError\<close>.
\<close>

lemma radius_loop_in_range:
  assumes "list_all (\<lambda>b. \<bar>fst target\<bar> \<le> 90 \<and> \<bar>b_latitude b\<bar> \<le> 90) bs"
  shows "radius_loop geodesic_km target radius_km bs filtered =
    Inr (filtered @ map b_id
      (filter (\<lambda>b. geodesic_km target (b_latitude b, b_longitude b) \<le> radius_km) bs))"
  using assms
  by (induction bs arbitrary: filtered) (auto simp: geodesic_def)

lemma radius_loop_out_of_range:
  assumes "\<not> list_all (\<lambda>b. \<bar>fst target\<bar> \<le> 90 \<and> \<bar>b_latitude b\<bar> \<le> 90) bs"
  shows "radius_loop geodesic_km target radius_km bs filtered =
    Inl (ValueError ''Latitude must be in the [-90; 90] range.'')"
  using assms
  by (induction bs arbitrary: filtered) (auto simp: geodesic_def)

lemma radius_search_out_of_range:
  assumes "\<not> list_all (\<lambda>b. \<bar>lat\<bar> \<le> 90 \<and> \<bar>b_latitude b\<bar> \<le> 90) (buildings s)"
  shows "fst (get_organizations_by_radius geodesic_km s lat lon radius_km) =
    Inl (ValueError ''Latitude must be in the [-90; 90] range.'')"
  using radius_loop_out_of_range [of "(lat, lon)" "buildings s" geodesic_km radius_km "[]"] assms
  by (simp add: get_organizations_by_radius_def)

text \<open>
  C5. The claim: \<^verbatim>\<open>get_organizations_by_radius\<close> returns the organizations within
  the radius for every input, and the empty list for every negative radius. With a
  query latitude of 91 and a building in the store the distance call raises
  \<^verbatim>\<open>ValueError\<close>, also for the radius -1.
\<close>

theorem radius_search_raises_counterexample:
  "fst (get_organizations_by_radius plane_km seed_db 91 0 (- 1)) =
     Inl (ValueError ''Latitude must be in the [-90; 90] range.'')"
  by (simp add: get_organizations_by_radius_def seed_db_def geodesic_def)

text \<open>
  C5, amended. When the query latitude and the latitude of every stored building
  lie in \<open>[-90, 90]\<close>, \<^verbatim>\<open>get_organizations_by_radius\<close> returns exactly the
  organizations housed in a building whose distance from the given point is at most
  the radius: a building at exactly the radius is included, an organization whose
  building is farther is not, and with a distance that is never negative a negative
  radius gives the empty list.
\<close>

theorem radius_search_within_latitude_range:
  assumes range: "list_all (\<lambda>b. \<bar>lat\<bar> \<le> 90 \<and> \<bar>b_latitude b\<bar> \<le> 90) (buildings s)"
  shows "\<exists>orgs. fst (get_organizations_by_radius geodesic_km s lat lon radius_km) = Inr orgs \<and>
    orgs = filter (\<lambda>org. \<exists>b \<in> set (buildings s). b_id b = o_building_id org \<and>
                     geodesic_km (lat, lon) (b_latitude b, b_longitude b) \<le> radius_km)
             (organizations s) \<and>
    (\<forall>org \<in> set (organizations s). \<forall>b \<in> set (buildings s).
       b_id b = o_building_id org \<and>
       geodesic_km (lat, lon) (b_latitude b, b_longitude b) = radius_km \<longrightarrow>
       org \<in> set orgs) \<and>
    (\<forall>org. (\<forall>b \<in> set (buildings s). b_id b = o_building_id org \<longrightarrow>
               radius_km < geodesic_km (lat, lon) (b_latitude b, b_longitude b)) \<longrightarrow>
       org \<notin> set orgs) \<and>
    ((\<forall>p q. 0 \<le> geodesic_km p q) \<and> radius_km < 0 \<longrightarrow> orgs = [])"
proof -
  let ?near = "\<lambda>org. \<exists>b \<in> set (buildings s). b_id b = o_building_id org \<and>
                geodesic_km (lat, lon) (b_latitude b, b_longitude b) \<le> radius_km"
  from range have loop: "radius_loop geodesic_km (lat, lon) radius_km (buildings s) [] =
      Inr (map b_id (filter (\<lambda>b. geodesic_km (lat, lon) (b_latitude b, b_longitude b)
                                \<le> radius_km) (buildings s)))"
    using radius_loop_in_range [of "(lat, lon)" "buildings s" geodesic_km radius_km "[]"]
    by simp
  have result: "fst (get_organizations_by_radius geodesic_km s lat lon radius_km) =
      Inr (filter ?near (organizations s))"
    unfolding get_organizations_by_radius_def Let_def loop sum.case fst_conv in_set_map_b_id
    by simp
  have included: "org \<in> set (filter ?near (organizations s))"
    if "org \<in> set (organizations s)" "b \<in> set (buildings s)"
      "b_id b = o_building_id org \<and>
       geodesic_km (lat, lon) (b_latitude b, b_longitude b) = radius_km" for org b
    using that by auto
  have excluded: "org \<notin> set (filter ?near (organizations s))"
    if "\<forall>b \<in> set (buildings s). b_id b = o_building_id org \<longrightarrow>
          radius_km < geodesic_km (lat, lon) (b_latitude b, b_longitude b)" for org
    using that by fastforce
  have negative: "filter ?near (organizations s) = []"
    if "(\<forall>p q. 0 \<le> geodesic_km p q) \<and> radius_km < 0"
  proof -
    from that have "\<not> geodesic_km p q \<le> radius_km" for p q
      by (smt (verit))
    then show ?thesis by simp
  qed
  from included excluded negative
  have "filter ?near (organizations s) = filter ?near (organizations s) \<and>
    (\<forall>org \<in> set (organizations s). \<forall>b \<in> set (buildings s).
       b_id b = o_building_id org \<and>
       geodesic_km (lat, lon) (b_latitude b, b_longitude b) = radius_km \<longrightarrow>
       org \<in> set (filter ?near (organizations s))) \<and>
    (\<forall>org. (\<forall>b \<in> set (buildings s). b_id b = o_building_id org \<longrightarrow>
               radius_km < geodesic_km (lat, lon) (b_latitude b, b_longitude b)) \<longrightarrow>
       org \<notin> set (filter ?near (organizations s))) \<and>
    ((\<forall>p q. 0 \<le> geodesic_km p q) \<and> radius_km < 0 \<longrightarrow> filter ?near (organizations s) = [])"
    by blast
  with result show ?thesis by blast
qed

theorem radius_search_within_latitude_range_witness:
  "list_all (\<lambda>b. \<bar>55.7558 :: real\<bar> \<le> 90 \<and> \<bar>b_latitude b\<bar> \<le> 90) (buildings seed_db) \<and>
   plane_km (55.7558, 36.6176) (55.7558, 37.6176) = 1 \<and>
   1 < plane_km (55.7558, 36.6176) (59.9343, 30.3351) \<and>
   map_sum id (map o_id)
     (fst (get_organizations_by_radius plane_km seed_db 55.7558 36.6176 1)) = Inr [1] \<and>
   (\<forall>p q. 0 \<le> plane_km p q) \<and> (- 1 :: real) < 0 \<and>
   fst (get_organizations_by_radius plane_km seed_db 55.7558 36.6176 (- 1)) = Inr []"
proof -
  have range: "list_all (\<lambda>b. \<bar>55.7558 :: real\<bar> \<le> 90 \<and> \<bar>b_latitude b\<bar> \<le> 90)
      (buildings seed_db)"
    by (simp add: seed_db_def)
  have nonneg: "\<forall>p q. 0 \<le> plane_km p q"
    by (simp add: plane_km_def)
  have edge: "plane_km (55.7558, 36.6176) (55.7558, 37.6176) = 1"
    by (simp add: plane_km_def)
  have far: "1 < plane_km (55.7558, 36.6176) (59.9343, 30.3351)"
    by (simp add: plane_km_def)
  from radius_search_within_latitude_range [OF range, of plane_km "36.6176" "- 1"] nonneg
  have empty: "fst (get_organizations_by_radius plane_km seed_db 55.7558 36.6176 (- 1)) = Inr []"
    by auto
  from radius_search_within_latitude_range [OF range, of plane_km "36.6176" 1]
  have "fst (get_organizations_by_radius plane_km seed_db 55.7558 36.6176 1) =
      Inr (filter (\<lambda>org. \<exists>b \<in> set (buildings seed_db). b_id b = o_building_id org \<and>
                plane_km (55.7558, 36.6176) (b_latitude b, b_longitude b) \<le> 1)
        (organizations seed_db))"
    by blast
  then have "map_sum id (map o_id)
      (fst (get_organizations_by_radius plane_km seed_db 55.7558 36.6176 1)) = Inr [1]"
    by (simp add: seed_db_def plane_km_def)
  with range nonneg edge far empty show ?thesis by simp
qed

section \<open>Searching by name\<close>

text \<open>
  A LIKE pattern that starts with \<open>%\<close> matches a text when the rest of the pattern
  matches one of its suffixes, and a run of characters other than \<open>%\<close> and \<open>_\<close>
  matches itself only. So for a search text that holds neither character, and no
  backslash, which a store may take as the escape character, the name search is
  containment after case folding.
\<close>

lemma like_match_percent_only: "like_match [37] t"
  by (induction t) auto

lemma like_match_percent:
  "like_match (37 # ps) t \<longleftrightarrow> (\<exists>pre post. t = pre @ post \<and> like_match ps post)"
proof (induction t)
  case Nil
  show ?case by simp
next
  case (Cons c cs)
  have "like_match (37 # ps) (c # cs) \<longleftrightarrow>
      like_match ps (c # cs) \<or> (\<exists>pre post. cs = pre @ post \<and> like_match ps post)"
    using Cons.IH by simp
  also have "\<dots> \<longleftrightarrow> (\<exists>pre post. c # cs = pre @ post \<and> like_match ps post)"
    by (auto simp: Cons_eq_append_conv)
  finally show ?case .
qed

lemma like_match_literal:
  assumes "37 \<notin> set xs" "95 \<notin> set xs"
  shows "like_match (xs @ ps) t \<longleftrightarrow> (\<exists>rest. t = xs @ rest \<and> like_match ps rest)"
  using assms
proof (induction xs arbitrary: t)
  case Nil
  show ?case by simp
next
  case (Cons x xs)
  then have x: "x \<noteq> 37" "x \<noteq> 95" and xs: "37 \<notin> set xs" "95 \<notin> set xs"
    by auto
  show ?case
  proof (cases t)
    case Nil
    with x show ?thesis by simp
  next
    case (Cons c cs)
    with x Cons.IH [OF xs, of cs] show ?thesis by auto
  qed
qed

lemma name_search_without_wildcards:
  assumes "lower 37 = 37"
    and "37 \<notin> lower ` set name" "95 \<notin> lower ` set name"
    and "92 \<notin> lower ` set name" "92 \<notin> set name"
  shows "ilike lower (37 # name @ [37]) t \<longleftrightarrow> spec_contains_folded lower name t"
proof -
  from assms(2,3) have plain: "37 \<notin> set (map lower name)" "95 \<notin> set (map lower name)"
    by auto
  have "ilike lower (37 # name @ [37]) t \<longleftrightarrow>
      like_match (37 # map lower name @ [37]) (map lower t)"
    by (simp add: ilike_def assms(1))
  also have "\<dots> \<longleftrightarrow>
      (\<exists>pre post. map lower t = pre @ post \<and> like_match (map lower name @ [37]) post)"
    by (rule like_match_percent)
  also have "\<dots> \<longleftrightarrow> (\<exists>pre rest. map lower t = pre @ map lower name @ rest)"
    by (simp add: like_match_literal [OF plain] like_match_percent_only) blast
  finally show ?thesis by (simp add: spec_contains_folded_def)
qed

lemma contains_single: "(\<exists>pre post. xs = pre @ [c] @ post) \<longleftrightarrow> c \<in> set xs"
  by (auto simp: in_set_conv_decomp)

lemma name_search_examples:
  "map o_id (fst (get_organizations_by_name lower_cp seed_db [1088, 1086, 1075, 1072])) = [1]"
  "map o_id (fst (get_organizations_by_name lower_cp seed_db [])) = [1, 2]"
  by (simp_all add: get_organizations_by_name_def seed_db_def ilike_def lower_cp_def)

text \<open>
  C7. The claim: \<^verbatim>\<open>get_organizations_by_name\<close> returns exactly the organizations
  whose name contains the search text, case-insensitively. The search text goes into
  the LIKE pattern as it is, so the search text \<open>_\<close> is a wildcard: on the sample
  data it returns both organizations, and neither name contains an underscore.
\<close>

theorem name_search_underscore_matches_any_character:
  "fst (get_organizations_by_name lower_cp seed_db [95]) = organizations seed_db \<and>
   list_all (\<lambda>org. \<not> spec_contains_folded lower_cp [95] (o_name org)) (organizations seed_db)"
proof -
  have "fst (get_organizations_by_name lower_cp seed_db [95]) = organizations seed_db"
    by (simp add: get_organizations_by_name_def seed_db_def ilike_def lower_cp_def)
  moreover have "list_all (\<lambda>org. \<not> spec_contains_folded lower_cp [95] (o_name org))
      (organizations seed_db)"
    unfolding spec_contains_folded_def list.map contains_single
    by (simp add: seed_db_def lower_cp_def)
  ultimately show ?thesis by simp
qed

section \<open>Creating organizations\<close>

text \<open>
  On a store that enforces the foreign keys the request is refused when its
  building id names no building, and changes the store as above when it does.
\<close>

lemma create_organization_enforcing_cases:
  "oc_building_id oc \<in> b_id ` set (buildings s) \<Longrightarrow>
     create_organization_enforcing s oc =
       (Inr (fst (create_organization s oc)), snd (create_organization s oc))"
  "oc_building_id oc \<notin> b_id ` set (buildings s) \<Longrightarrow>
     create_organization_enforcing s oc = (Inl IntegrityError, s)"
  by (simp_all add: create_organization_enforcing_def)

text \<open>
  C8. \<^verbatim>\<open>create_organization\<close> has no failing exit. In a data state whose link
  rows name organizations of the store, the organization it returns is stored, and
  it is linked to exactly those of the given activity ids that an activity of the
  store carries; the others are dropped.
\<close>

theorem create_organization_links_resolved_ids:
  assumes refs: "links_reference_organizations s"
  shows "fst (create_organization s oc) \<in> set (organizations (snd (create_organization s oc))) \<and>
    o_name (fst (create_organization s oc)) = oc_name oc \<and>
    organization_activity (snd (create_organization s oc)) =
      organization_activity s @
      map (\<lambda>a. (o_id (fst (create_organization s oc)), a_id a))
        (filter (\<lambda>a. a_id a \<in> set (oc_activity_ids oc)) (activities s)) \<and>
    a_id ` set (organization_activities (snd (create_organization s oc))
                  (fst (create_organization s oc))) =
      set (oc_activity_ids oc) \<inter> a_id ` set (activities s)"
proof -
  let ?new = "next_id (map o_id (organizations s))"
  have fresh: "(?new, a) \<notin> set (organization_activity s)" for a
  proof
    assume "(?new, a) \<in> set (organization_activity s)"
    with refs have "?new \<in> set (map o_id (organizations s))"
      by (auto simp: links_reference_organizations_def list_all_iff)
    from next_id_fresh [OF this] show False by simp
  qed
  show ?thesis
    by (auto simp: create_organization_def organization_activities_def Let_def
        add_phones_frame fresh)
qed

theorem create_organization_links_resolved_ids_witness:
  "links_reference_organizations seed_db \<and>
   a_id ` set (organization_activities
     (snd (create_organization seed_db
        \<lparr>oc_name = [78], oc_building_id = 1, oc_phone_numbers = [[55]],
         oc_activity_ids = [2, 99, 6]\<rparr>))
     (fst (create_organization seed_db
        \<lparr>oc_name = [78], oc_building_id = 1, oc_phone_numbers = [[55]],
         oc_activity_ids = [2, 99, 6]\<rparr>))) = {2, 6} \<and>
   organization_activity
     (snd (create_organization seed_db
        \<lparr>oc_name = [78], oc_building_id = 1, oc_phone_numbers = [[55]],
         oc_activity_ids = [2, 99, 6]\<rparr>)) = [(1, 2), (1, 3), (2, 6), (3, 2), (3, 6)]"
proof -
  let ?oc = "\<lparr>oc_name = [78], oc_building_id = 1, oc_phone_numbers = [[55]],
              oc_activity_ids = [2, 99, 6]\<rparr>"
  have refs: "links_reference_organizations seed_db"
    by (simp add: links_reference_organizations_def seed_db_def)
  have ids: "set (oc_activity_ids ?oc) \<inter> a_id ` set (activities seed_db) = {2, 6}"
    using seed_db_activity_ids by (simp add: seed_db_def)
  have new_id: "o_id (fst (create_organization seed_db ?oc)) = 3"
    by (simp add: create_organization_def seed_db_def next_id_def Let_def)
  have rows: "filter (\<lambda>a. a_id a \<in> set (oc_activity_ids ?oc)) (activities seed_db) =
      [activities seed_db ! 1, activities seed_db ! 5]"
    by (simp add: seed_db_def)
  have links: "organization_activity (snd (create_organization seed_db ?oc)) =
      [(1, 2), (1, 3), (2, 6), (3, 2), (3, 6)]"
    using create_organization_links_resolved_ids [OF refs, of ?oc]
    unfolding new_id rows by (simp add: seed_db_def)
  from create_organization_links_resolved_ids [OF refs, of ?oc] refs ids links
  show ?thesis by simp
qed

end
